theory Spec2Isabelle
  imports Complex_Main
begin

section \<open>Python values and library calls used by the pipeline\<close>

text \<open>
  The pipeline is Python. A raised exception is a value of \<open>py_error\<close> on the left of a
  sum; a function that can raise returns \<open>py_error + 'a\<close>.
  A Python \<open>str\<close> is a \<open>string\<close>: a list of code points, of which the model has
  those below 256 (HOL's \<open>char\<close>). The character classes below are Python's on that range.
  The floats of the pipeline are the literals \<open>0.0\<close>, \<open>0.25\<close>, \<open>0.5\<close>, \<open>0.8\<close>, \<open>1.0\<close>,
  the sum \<open>0.8 + 0.5\<close> (which is the double \<open>1.3\<close>) and coordinates that are only copied;
  they are modelled by the rationals they denote, on which every comparison the code makes
  has the same outcome.
\<close>

datatype py_error = FileNotFoundError | IndexError | TypeError | NameError | AttributeError

definition isspace :: "char \<Rightarrow> bool" where
  \<comment> \<open>\<open>str.isspace\<close> on one code point below 256\<close>
  "isspace c = (let n = (of_char c :: nat) in
     (9 \<le> n \<and> n \<le> 13) \<or> (28 \<le> n \<and> n \<le> 32) \<or> n = 133 \<or> n = 160)"

function split_ws :: "string \<Rightarrow> string list" where
  \<comment> \<open>\<open>text.split()\<close>: the maximal runs of non-whitespace characters\<close>
  "split_ws [] = []"
| "split_ws (c # cs) =
     (if isspace c then split_ws cs
      else (c # takeWhile (\<lambda>x. \<not> isspace x) cs) # split_ws (dropWhile (\<lambda>x. \<not> isspace x) cs))"
  by pat_completeness auto
termination
  by (relation "measure length") (auto simp: le_imp_less_Suc length_dropWhile_le)

fun starts_with :: "string \<Rightarrow> string \<Rightarrow> bool" where
  \<comment> \<open>\<open>starts_with sub s\<close>: \<open>s.startswith(sub)\<close>\<close>
  "starts_with [] s = True"
| "starts_with (a # sub) [] = False"
| "starts_with (a # sub) (c # s) = (a = c \<and> starts_with sub s)"

fun find_at :: "string \<Rightarrow> string \<Rightarrow> nat option" where
  \<comment> \<open>the least offset in \<open>s\<close> at which \<open>sub\<close> occurs\<close>
  "find_at sub [] = (if sub = [] then Some 0 else None)"
| "find_at sub (c # s) =
     (if starts_with sub (c # s) then Some 0 else map_option Suc (find_at sub s))"

definition str_find :: "string \<Rightarrow> string \<Rightarrow> int \<Rightarrow> int" where
  \<comment> \<open>\<open>text.find(sub, start)\<close>: the lowest index from \<open>start\<close> on, \<open>-1\<close> when there is none\<close>
  "str_find text sub start =
     (let n = int (length text);
          s = (if start < 0 then max 0 (n + start) else start)
      in if n < s then - 1
         else (case find_at sub (drop (nat s) text) of
                 None \<Rightarrow> - 1
               | Some k \<Rightarrow> s + int k))"

definition str_contains :: "string \<Rightarrow> string \<Rightarrow> bool" where
  \<comment> \<open>\<open>str_contains sub s\<close>: \<open>sub in s\<close>\<close>
  "str_contains sub s = (find_at sub s \<noteq> None)"

section \<open>ner_model.py: annotations to IOB tags\<close>

text \<open>
  A key of a JSON object is missing, or holds \<open>null\<close>, or holds a value. \<open>dict.get\<close> gives
  its default for a missing key only: for a key that holds \<open>null\<close> it gives \<open>None\<close>.
\<close>

datatype 'a json_key = Missing | Null | Value 'a

text \<open>
  One entry of \<open>annotations[0]["result"]\<close>, an object, is given by its key \<open>"value"\<close>.
  For \<open>"start"\<close> and \<open>"end"\<close> the code calls \<open>val.get\<close> with no default, which gives
  \<open>None\<close> for a missing key as for \<open>null\<close>; for \<open>"labels"\<close> the default is \<open>[None]\<close>.
\<close>

record ann_value =
  ann_start :: "int option"
  ann_end :: "int option"
  ann_labels :: "string list json_key"

type_synonym annotation = "ann_value json_key"

record annotation_record =
  rec_text :: string
    \<comment> \<open>\<open>record.get("data", {}).get("text", "")\<close>\<close>
  rec_annotations :: "annotation list list option"
    \<comment> \<open>\<open>record["annotations"]\<close> when present, each entry given by its \<open>"result"\<close> list\<close>

record iob_record =
  tokens :: "string list"
  ner_tags :: "string list"

definition empty_value :: ann_value where
  "empty_value = \<lparr>ann_start = None, ann_end = None, ann_labels = Missing\<rparr>"

definition first_label :: "ann_value \<Rightarrow> py_error + string option" where
  \<comment> \<open>\<open>val.get("labels", [None])[0]\<close>: indexing \<open>None\<close> raises TypeError, indexing
      the empty list IndexError\<close>
  "first_label val =
     (case ann_labels val of
        Missing \<Rightarrow> Inr None
      | Null \<Rightarrow> Inl TypeError
      | Value [] \<Rightarrow> Inl IndexError
      | Value (l # ls) \<Rightarrow> Inr (Some l))"

fun token_spans :: "string \<Rightarrow> int \<Rightarrow> string list \<Rightarrow> (int \<times> int) list" where
  \<comment> \<open>lines 30 to 35: the span of each token, searched from the end of the previous one\<close>
  "token_spans text current_pos [] = []"
| "token_spans text current_pos (token # rest) =
     (let start = str_find text token current_pos in
      if start = - 1 then token_spans text current_pos rest
      else (start, start + int (length token))
             # token_spans text (start + int (length token)) rest)"

fun tag_tokens ::
  "int \<Rightarrow> int option \<Rightarrow> string \<Rightarrow> nat \<Rightarrow> (int \<times> int) list \<Rightarrow> bool \<Rightarrow> string list
     \<Rightarrow> py_error + string list" where
  \<comment> \<open>lines 43 to 46: the loop over \<open>enumerate(token_spans)\<close>, from index \<open>i\<close> on.
      \<open>min(None, token_end)\<close> raises TypeError; \<open>tags[i] = ...\<close> raises IndexError
      out of range.\<close>
  "tag_tokens start_char end_char label i [] first tags = Inr tags"
| "tag_tokens start_char end_char label i ((token_start, token_end) # spans) first tags =
     (case end_char of
        None \<Rightarrow> Inl TypeError
      | Some e \<Rightarrow>
          if max start_char token_start < min e token_end
          then (if i < length tags
                then tag_tokens start_char end_char label (Suc i) spans False
                       (tags[i := (if first then ''B-'' else ''I-'') @ label])
                else Inl IndexError)
          else tag_tokens start_char end_char label (Suc i) spans first tags)"

definition apply_annotation ::
  "(int \<times> int) list \<Rightarrow> string list \<Rightarrow> annotation \<Rightarrow> py_error + string list" where
  \<comment> \<open>lines 38 to 46: one iteration of \<open>for ann in annotations\<close>. When \<open>"value"\<close> holds
      \<open>null\<close>, \<open>val\<close> is \<open>None\<close> and \<open>val.get\<close> raises AttributeError. Behind the guard
      of line 40 the label is \<open>"PROJECT"\<close> and the start is not \<open>None\<close>.\<close>
  "apply_annotation spans tags ann =
     (case (case ann of
              Missing \<Rightarrow> Inr empty_value
            | Null \<Rightarrow> Inl AttributeError
            | Value v \<Rightarrow> Inr v) of
        Inl err \<Rightarrow> Inl err
      | Inr val \<Rightarrow>
          (case first_label val of
             Inl err \<Rightarrow> Inl err
           | Inr label \<Rightarrow>
               (case ann_start val of
                  None \<Rightarrow> Inr tags
                | Some start_char \<Rightarrow>
                    if label \<noteq> Some ''PROJECT'' then Inr tags
                    else tag_tokens start_char (ann_end val) ''PROJECT'' 0 spans True tags)))"

fun align_annotations ::
  "(int \<times> int) list \<Rightarrow> string list \<Rightarrow> annotation list \<Rightarrow> py_error + string list" where
  \<comment> \<open>line 37: the annotations in their listed order, on the same \<open>tags\<close> list\<close>
  "align_annotations spans tags [] = Inr tags"
| "align_annotations spans tags (ann # anns) =
     (case apply_annotation spans tags ann of
        Inl err \<Rightarrow> Inl err
      | Inr tags' \<Rightarrow> align_annotations spans tags' anns)"

definition tag_record :: "string \<Rightarrow> annotation list \<Rightarrow> py_error + iob_record" where
  \<comment> \<open>lines 27 to 47: the record built from a text and its annotation list\<close>
  "tag_record text annotations =
     (let toks = split_ws text;
          tags = replicate (length toks) ''O'';
          spans = token_spans text 0 toks
      in case align_annotations spans tags annotations of
           Inl err \<Rightarrow> Inl err
         | Inr tags' \<Rightarrow> Inr \<lparr>tokens = toks, ner_tags = tags'\<rparr>)"

definition convert_record :: "annotation_record \<Rightarrow> py_error + iob_record option" where
  \<comment> \<open>lines 23 to 47: one iteration of \<open>for record in data\<close>; \<open>None\<close> is the \<open>continue\<close>
      of line 24\<close>
  "convert_record r =
     (if rec_text r = [] then Inr None
      else case (case rec_annotations r of
                   None \<Rightarrow> Inr []
                 | Some [] \<Rightarrow> Inl IndexError
                 | Some (result # others) \<Rightarrow> Inr result) of
             Inl err \<Rightarrow> Inl err
           | Inr annotations \<Rightarrow> map_sum id Some (tag_record (rec_text r) annotations))"

fun convert_records :: "annotation_record list \<Rightarrow> py_error + iob_record list" where
  "convert_records [] = Inr []"
| "convert_records (r # rs) =
     (case convert_record r of
        Inl err \<Rightarrow> Inl err
      | Inr None \<Rightarrow> convert_records rs
      | Inr (Some out) \<Rightarrow> map_sum id (\<lambda>outs. out # outs) (convert_records rs))"

definition convert_json_to_iob :: "annotation_record list option \<Rightarrow> py_error + iob_record list" where
  \<comment> \<open>the argument is the parsed content of the annotation file, \<open>None\<close> when the file
      does not exist\<close>
  "convert_json_to_iob file =
     (case file of
        None \<Rightarrow> Inl FileNotFoundError
      | Some data \<Rightarrow> convert_records data)"

section \<open>ner_model.py: tag ids and sub-word alignment\<close>

definition label_list :: "string list" where
  "label_list = [''O'', ''B-PROJECT'', ''I-PROJECT'']"

definition label_encoding :: "string \<rightharpoonup> int" where
  \<comment> \<open>\<open>{label: i for i, label in enumerate(label_list)}\<close>\<close>
  "label_encoding = fold (\<lambda>(i, label) m. m(label \<mapsto> int i)) (enumerate 0 label_list) Map.empty"

definition encode_tags :: "string list \<Rightarrow> int list" where
  \<comment> \<open>line 56: \<open>[label_encoding.get(tag, 0) for tag in record["ner_tags"]]\<close>\<close>
  "encode_tags tags = map (\<lambda>tag. case label_encoding tag of None \<Rightarrow> 0 | Some i \<Rightarrow> i) tags"

fun align_labels :: "int list \<Rightarrow> nat option \<Rightarrow> nat option list \<Rightarrow> py_error + int list" where
  \<comment> \<open>lines 66 to 69 of \<open>tokenize_and_align\<close>: the loop over the word ids the tokenizer
      gives to the sub-word pieces of one example (\<open>None\<close> for a piece of no word), with
      the ids \<open>label\<close> of the example's tags. \<open>label[word_idx]\<close> raises IndexError out of
      range.\<close>
  "align_labels label previous_word_idx [] = Inr []"
| "align_labels label previous_word_idx (word_idx # word_ids) =
     (case (case word_idx of
              None \<Rightarrow> Inr (- 100)
            | Some w \<Rightarrow>
                if word_idx = previous_word_idx then Inr (- 100)
                else if w < length label then Inr (label ! w)
                else Inl IndexError) of
        Inl err \<Rightarrow> Inl err
      | Inr label_id \<Rightarrow>
          map_sum id (\<lambda>label_ids. label_id # label_ids) (align_labels label word_idx word_ids))"

section \<open>geolocator.py: candidate location names\<close>

text \<open>
  \<open>re.findall\<close> with the pattern \<open>\b([A-Z][A-Za-z'-]+(?: [A-Z][A-Za-z'-]+)*)\b\<close>. The
  engine backtracks: at a position it tries the ways to match in a fixed order, each \<open>+\<close>
  and \<open>*\<close> taking as much as it can first, and keeps the first way that reaches the end
  of the pattern. \<open>body_lengths\<close> lists, in that order, the lengths the part between the
  two \<open>\b\<close> can match at the head of a string; \<open>match_at\<close> takes the first of them at which
  the closing \<open>\b\<close> holds.
\<close>

definition is_upper_AZ :: "char \<Rightarrow> bool" where
  \<comment> \<open>\<open>[A-Z]\<close>\<close>
  "is_upper_AZ c = (let n = (of_char c :: nat) in 65 \<le> n \<and> n \<le> 90)"

definition is_name_char :: "char \<Rightarrow> bool" where
  \<comment> \<open>\<open>[A-Za-z'-]\<close>\<close>
  "is_name_char c = (let n = (of_char c :: nat) in
     (65 \<le> n \<and> n \<le> 90) \<or> (97 \<le> n \<and> n \<le> 122) \<or> n = 39 \<or> n = 45)"

definition is_word_char :: "char \<Rightarrow> bool" where
  \<comment> \<open>\<open>\w\<close> of a \<open>str\<close> pattern, on one code point below 256: the alphanumeric
      characters and the underscore\<close>
  "is_word_char c = (let n = (of_char c :: nat) in
     (48 \<le> n \<and> n \<le> 57) \<or> (65 \<le> n \<and> n \<le> 90) \<or> n = 95 \<or> (97 \<le> n \<and> n \<le> 122) \<or>
     n = 170 \<or> n = 178 \<or> n = 179 \<or> n = 181 \<or> n = 185 \<or> n = 186 \<or>
     (188 \<le> n \<and> n \<le> 190) \<or> (192 \<le> n \<and> n \<le> 214) \<or> (216 \<le> n \<and> n \<le> 246) \<or>
     248 \<le> n)"

definition word_boundary :: "char option \<Rightarrow> char option \<Rightarrow> bool" where
  \<comment> \<open>\<open>\b\<close> between the character before a position and the one after it (\<open>None\<close> at
      either end of the string)\<close>
  "word_boundary prev nxt =
     ((case prev of None \<Rightarrow> False | Some c \<Rightarrow> is_word_char c)
      \<noteq> (case nxt of None \<Rightarrow> False | Some c \<Rightarrow> is_word_char c))"

definition head_char :: "string \<Rightarrow> char option" where
  "head_char s = (case s of [] \<Rightarrow> None | c # cs \<Rightarrow> Some c)"

definition word_lengths :: "string \<Rightarrow> nat list" where
  \<comment> \<open>\<open>[A-Z][A-Za-z'-]+\<close> at the head of \<open>s\<close>: the lengths it can match, longest first\<close>
  "word_lengths s =
     (case s of
        [] \<Rightarrow> []
      | c # cs \<Rightarrow>
          if is_upper_AZ c
          then map Suc (rev [1 ..< Suc (length (takeWhile is_name_char cs))])
          else [])"

function body_lengths :: "string \<Rightarrow> nat list" where
  \<comment> \<open>\<open>[A-Z][A-Za-z'-]+(?: [A-Z][A-Za-z'-]+)*\<close> at the head of \<open>s\<close>: after a first word
      of length \<open>k\<close>, the matches that go on with a space and further words come before
      the match that stops at \<open>k\<close>\<close>
  "body_lengths s =
     concat (map (\<lambda>k.
       (case drop k s of
          [] \<Rightarrow> []
        | sp # rest \<Rightarrow>
            if sp = CHR '' '' then map (\<lambda>m. k + 1 + m) (body_lengths rest) else [])
       @ [k]) (word_lengths s))"
  by pat_completeness auto
termination
proof (relation "measure length")
  show "wf (measure length)" by simp
next
  fix s :: string and k sp rest
  assume "drop k s = sp # rest"
  then have "length (sp # rest) \<le> length s"
    by (metis length_drop diff_le_self)
  then show "(rest, s) \<in> measure length" by simp
qed

declare body_lengths.simps [simp del]

definition match_at :: "char option \<Rightarrow> string \<Rightarrow> nat option" where
  \<comment> \<open>the pattern tried at one position: the length of its match there\<close>
  "match_at prev s =
     (if word_boundary prev (head_char s)
      then List.find (\<lambda>k. word_boundary (head_char (drop (k - 1) s)) (head_char (drop k s)))
             (body_lengths s)
      else None)"

fun findall_names :: "char option \<Rightarrow> string \<Rightarrow> string list" where
  \<comment> \<open>the scan of \<open>re.findall\<close>: after a match it goes on behind it, otherwise one
      character further (as it does after an empty match, which this pattern never has)\<close>
  "findall_names prev [] = []"
| "findall_names prev (c # cs) =
     (case match_at prev (c # cs) of
        None \<Rightarrow> findall_names (Some c) cs
      | Some 0 \<Rightarrow> [] # findall_names (Some c) cs
      | Some (Suc k) \<Rightarrow>
          (c # take k cs) # findall_names (Some ((c # cs) ! k)) (drop k cs))"

definition stop_words :: "string list" where
  "stop_words = [''The'', ''A'', ''An'', ''This'', ''Project'', ''Company'']"

definition simulate_llm_location_extraction :: "string \<Rightarrow> string list" where
  \<comment> \<open>\<open>list(set(locations))\<close> has the distinct elements of \<open>locations\<close> in an order Python
      does not fix; the model takes the order of \<open>remdups\<close>\<close>
  "simulate_llm_location_extraction context =
     (let potential_locations = findall_names None context;
          locations = filter (\<lambda>loc. loc \<notin> set stop_words \<and> length loc > 2) potential_locations;
          locations = (if str_contains ''WA'' context \<and> ''Western Australia'' \<notin> set locations
                       then locations @ [''Western Australia''] else locations)
      in remdups locations)"

section \<open>geolocator.py: geocoding\<close>

text \<open>
  The geocoding backend is outside the repository: \<open>geolocator.geocode(name,
  exactly_one=False, limit=3)\<close> is a parameter of the model, a function of the name and the
  limit that gives the backend's answer (\<open>None\<close> or a list of locations) or the exception
  it raises. The pause of one second after an answer is not modelled.
\<close>

record location =
  loc_address :: string
  loc_latitude :: rat
  loc_longitude :: rat

record candidate =
  cand_name :: string
  cand_latitude :: rat
  cand_longitude :: rat

datatype backend_error = GeocoderTimedOut | GeocoderUnavailable | OtherException

type_synonym geocoder = "string \<Rightarrow> nat \<Rightarrow> backend_error + location list option"

definition geocode_location :: "geocoder \<Rightarrow> string \<Rightarrow> py_error + candidate list" where
  \<comment> \<open>the \<open>try\<close> body, then the two handlers: the second one, \<open>except Exception\<close>, takes
      every exception the first does not\<close>
  "geocode_location geolocator location_name =
     (case geolocator location_name 3 of
        Inr locations \<Rightarrow>
          (case locations of
             None \<Rightarrow> Inr []
           | Some [] \<Rightarrow> Inr []
           | Some (l # ls) \<Rightarrow>
               Inr (map (\<lambda>loc. \<lparr>cand_name = loc_address loc, cand_latitude = loc_latitude loc,
                                  cand_longitude = loc_longitude loc\<rparr>) (l # ls)))
      | Inl GeocoderTimedOut \<Rightarrow> Inr []
      | Inl GeocoderUnavailable \<Rightarrow> Inr []
      | Inl OtherException \<Rightarrow> Inr [])"

section \<open>geolocator.py: disambiguation\<close>

definition char_lower :: "char \<Rightarrow> char" where
  \<comment> \<open>\<open>str.lower\<close> on one code point below 256\<close>
  "char_lower c = (let n = (of_char c :: nat) in
     if (65 \<le> n \<and> n \<le> 90) \<or> (192 \<le> n \<and> n \<le> 222 \<and> n \<noteq> 215) then char_of (n + 32) else c)"

definition str_lower :: "string \<Rightarrow> string" where
  "str_lower s = map char_lower s"

definition py_round4 :: "rat \<Rightarrow> rat" where
  \<comment> \<open>\<open>round(x, 4)\<close>: to four decimals, a tie to the even neighbour\<close>
  "py_round4 x = (let y = x * 10000; f = \<lfloor>y\<rfloor>; d = y - of_int f in
     (if d < 1/2 \<or> (d = 1/2 \<and> even f) then of_int f else of_int f + 1) / 10000)"

fun str_nat :: "nat \<Rightarrow> string" where
  \<comment> \<open>the decimal digits of a number\<close>
  "str_nat n =
     (if n < 10 then [''0123456789'' ! n]
      else str_nat (n div 10) @ [''0123456789'' ! (n mod 10)])"

declare str_nat.simps [simp del]

fun strip_zeros :: "string \<Rightarrow> string" where
  \<comment> \<open>without the zeros at the end\<close>
  "strip_zeros [] = []"
| "strip_zeros (c # cs) = (let r = strip_zeros cs in if r = [] \<and> c = CHR ''0'' then [] else c # r)"

definition str_float :: "rat \<Rightarrow> string" where
  \<comment> \<open>how an f-string prints a float that is a non-negative number of at most four
      decimals, as the confidence is: \<open>0.8\<close>, \<open>1.0\<close>\<close>
  "str_float x = (let n = nat \<lfloor>x * 10000\<rfloor>;
                      frac = strip_zeros (drop 1 (str_nat (10000 + n mod 10000)))
                  in str_nat (n div 10000) @ ''.'' @ (if frac = [] then ''0'' else frac))"

record disambiguation_result =
  chosen_location :: "string option"
  coordinates :: "(rat \<times> rat) option"
  geolocation_confidence :: rat
  justification :: string

definition candidate_score :: "string \<Rightarrow> candidate \<Rightarrow> rat" where
  \<comment> \<open>lines 44 to 48: the score of one candidate\<close>
  "candidate_score context cand =
     (let score = 0;
          cand_name_lower = str_lower (cand_name cand);
          score = (if str_contains ''western australia'' (str_lower context)
                      \<and> str_contains ''western australia'' cand_name_lower then score + 8/10
                   else if str_contains ''wa'' context
                      \<and> str_contains ''western australia'' cand_name_lower then score + 8/10
                   else score);
          score = (if str_contains ''australia'' (str_lower context)
                      \<and> str_contains ''australia'' cand_name_lower then score + 5/10
                   else score)
      in score)"

fun best_candidate_loop ::
  "string \<Rightarrow> candidate list \<Rightarrow> candidate option \<times> rat \<Rightarrow> candidate option \<times> rat" where
  \<comment> \<open>lines 43 to 49: the loop, on the pair \<open>(best_candidate, max_score)\<close>\<close>
  "best_candidate_loop context [] (best_candidate, max_score) = (best_candidate, max_score)"
| "best_candidate_loop context (cand # cands) (best_candidate, max_score) =
     (let score = candidate_score context cand in
      if score > max_score then best_candidate_loop context cands (Some cand, score)
      else best_candidate_loop context cands (best_candidate, max_score))"

definition first_result :: "candidate \<Rightarrow> disambiguation_result" where
  \<comment> \<open>lines 55 and 56\<close>
  "first_result first_cand =
     \<lparr>chosen_location = Some (cand_name first_cand),
      coordinates = Some (cand_latitude first_cand, cand_longitude first_cand),
      geolocation_confidence = 25/100,
      justification = ''Context was ambiguous. Simulation defaulted to the first available result.''\<rparr>"

definition simulate_llm_disambiguation :: "string \<Rightarrow> candidate list \<Rightarrow> disambiguation_result" where
  "simulate_llm_disambiguation context candidates =
     (case candidates of
        [] \<Rightarrow> \<lparr>chosen_location = None, coordinates = None, geolocation_confidence = 0,
               justification = ''No location candidates were provided to the simulation.''\<rparr>
      | first_cand # others \<Rightarrow>
          (case best_candidate_loop context candidates (None, - 1) of
             (None, max_score) \<Rightarrow> first_result first_cand
           | (Some best_candidate, max_score) \<Rightarrow>
               if max_score > 5/10
               then (let confidence = min (py_round4 max_score) 1 in
                     \<lparr>chosen_location = Some (cand_name best_candidate),
                      coordinates = Some (cand_latitude best_candidate, cand_longitude best_candidate),
                      geolocation_confidence = confidence,
                      justification =
                        ''Simulation selected candidate based on high contextual match (score: ''
                        @ str_float confidence @ '').''\<rparr>)
               else first_result first_cand))"

section \<open>geolocator.py: the pipeline\<close>

text \<open>
  The input file is given by its parsed records (\<open>None\<close> when the file does not exist),
  the output file by its content (\<open>None\<close> when it does not exist), and \<open>json.dump\<close> by
  the text \<open>dumps\<close> gives for a record. A run returns the output file and the exception
  that ended it, if one did.
\<close>

record mention =
  pdf_file :: string
  page_number :: int
  project_name :: string
  ner_confidence :: rat
  context_sentence :: string
  ner_coordinates :: "(rat \<times> rat) option"
    \<comment> \<open>the key \<open>"coordinates"\<close> of the input record\<close>

record final_record =
  fr_mention :: mention
  fr_choice :: disambiguation_result

definition update_record :: "mention \<Rightarrow> disambiguation_result \<Rightarrow> final_record" where
  \<comment> \<open>\<open>record.update(final_choice)\<close>: the keys of the choice are added, and its
      \<open>"coordinates"\<close> replace the record's\<close>
  "update_record r final_choice =
     \<lparr>fr_mention = r\<lparr>ner_coordinates := coordinates final_choice\<rparr>, fr_choice = final_choice\<rparr>"

fun gather_candidates :: "geocoder \<Rightarrow> string list \<Rightarrow> py_error + candidate list" where
  \<comment> \<open>lines 78 to 80\<close>
  "gather_candidates geolocator [] = Inr []"
| "gather_candidates geolocator (name # names) =
     (case geocode_location geolocator name of
        Inl err \<Rightarrow> Inl err
      | Inr found \<Rightarrow> map_sum id (\<lambda>others. found @ others) (gather_candidates geolocator names))"

fun geolocate_records ::
  "(final_record \<Rightarrow> string) \<Rightarrow> geocoder \<Rightarrow> mention list \<Rightarrow> string option
     \<Rightarrow> string option \<times> py_error option" where
  \<comment> \<open>lines 71 to 88. In line 88, \<open>json.dump(record, f_out)\<close> writes the record to the
      file opened for appending; then \<open>f.write\<close> looks up \<open>f\<close>, a name bound neither in
      the function nor in the module, and NameError leaves the \<open>with\<close> block, which closes
      the file, the loop and the function.\<close>
  "geolocate_records dumps geolocator [] out = (out, None)"
| "geolocate_records dumps geolocator (r # records) out =
     (let context = context_sentence r;
          location_names = simulate_llm_location_extraction context
      in if location_names = [] then geolocate_records dumps geolocator records out
         else (case gather_candidates geolocator location_names of
                 Inl err \<Rightarrow> (out, Some err)
               | Inr all_candidates \<Rightarrow>
                   if all_candidates = [] then geolocate_records dumps geolocator records out
                   else (let final_choice = simulate_llm_disambiguation context all_candidates;
                             r' = update_record r final_choice;
                             out' = Some ((case out of None \<Rightarrow> [] | Some written \<Rightarrow> written)
                                          @ dumps r')
                         in (out', Some NameError))))"

definition run_geolocation_pipeline ::
  "(final_record \<Rightarrow> string) \<Rightarrow> geocoder \<Rightarrow> mention list option \<Rightarrow> string option
     \<Rightarrow> string option \<times> py_error option" where
  \<comment> \<open>without the input file the run ends at once; otherwise the output file is removed
      if it exists, and the records are processed\<close>
  "run_geolocation_pipeline dumps geolocator input_file output_file =
     (case input_file of
        None \<Rightarrow> (output_file, None)
      | Some records \<Rightarrow> geolocate_records dumps geolocator records None)"

section \<open>Inputs of the aligner examples\<close>

definition acme_text :: string where
  "acme_text = ''Acme Gold Project near Kalgoorlie''"

definition acme_file :: "annotation_record list option" where
  \<comment> \<open>an annotation file with the one record of the example: the text and the span
      \<open>{start: 0, end: 14, labels: ["PROJECT"]}\<close>\<close>
  "acme_file = Some [\<lparr>rec_text = acme_text,
     rec_annotations = Some [[Value \<lparr>ann_start = Some 0, ann_end = Some 14,
                                        ann_labels = Value [''PROJECT'']\<rparr>]]\<rparr>]"

definition project_0_14 :: annotation where
  "project_0_14 = Value \<lparr>ann_start = Some 0, ann_end = Some 14, ann_labels = Value [''PROJECT'']\<rparr>"

definition location_23_33 :: annotation where
  "location_23_33 =
     Value \<lparr>ann_start = Some 23, ann_end = Some 33, ann_labels = Value [''LOCATION'']\<rparr>"

definition project_5_17 :: annotation where
  "project_5_17 = Value \<lparr>ann_start = Some 5, ann_end = Some 17, ann_labels = Value [''PROJECT'']\<rparr>"

definition unlabelled_0_4 :: annotation where
  \<comment> \<open>a span whose list of labels is empty\<close>
  "unlabelled_0_4 = Value \<lparr>ann_start = Some 0, ann_end = Some 4, ann_labels = Value []\<rparr>"

definition null_labels_0_4 :: annotation where
  \<comment> \<open>a span whose \<open>"labels"\<close> hold \<open>null\<close>\<close>
  "null_labels_0_4 = Value \<lparr>ann_start = Some 0, ann_end = Some 4, ann_labels = Null\<rparr>"

definition null_value :: annotation where
  \<comment> \<open>a span whose \<open>"value"\<close> holds \<open>null\<close>\<close>
  "null_value = Null"

definition project_0_open :: annotation where
  \<comment> \<open>a span labelled PROJECT with a start and no end\<close>
  "project_0_open = Value \<lparr>ann_start = Some 0, ann_end = None, ann_labels = Value [''PROJECT'']\<rparr>"

section \<open>The specification of the aligner and of the tag ids\<close>

text \<open>
  The definitions of this section follow the words of the specification, not the code;
  the theorems compare the code with them.
\<close>

definition spec_overlap :: "int \<Rightarrow> int \<Rightarrow> int \<times> int \<Rightarrow> bool" where
  \<comment> \<open>\<open>max(ann.start, tok.start) < min(ann.end, tok.end)\<close>\<close>
  "spec_overlap a_start a_end tok = (max a_start (fst tok) < min a_end (snd tok))"

definition project_labelled :: "annotation \<Rightarrow> bool" where
  \<comment> \<open>the span's label, the first of its labels, is PROJECT\<close>
  "project_labelled ann =
     (case ann of
        Value v \<Rightarrow> (case ann_labels v of Value (l # ls) \<Rightarrow> l = ''PROJECT'' | _ \<Rightarrow> False)
      | _ \<Rightarrow> False)"

definition has_offsets :: "annotation \<Rightarrow> bool" where
  \<comment> \<open>the span carries both an integer start and an integer end\<close>
  "has_offsets ann =
     (case ann of Value v \<Rightarrow> ann_start v \<noteq> None \<and> ann_end v \<noteq> None | _ \<Rightarrow> False)"

definition span_readable :: "annotation \<Rightarrow> bool" where
  \<comment> \<open>\<open>"value"\<close> is missing or an object, and in an object \<open>"labels"\<close> is missing or a
      list that is not empty: neither holds \<open>null\<close>\<close>
  "span_readable ann =
     (case ann of
        Missing \<Rightarrow> True
      | Null \<Rightarrow> False
      | Value v \<Rightarrow> ann_labels v \<noteq> Null \<and> ann_labels v \<noteq> Value [])"

definition span_well_formed :: "annotation \<Rightarrow> bool" where
  \<comment> \<open>what the aligner needs of a span: a value and labels as above, and an end
      whenever it is labelled PROJECT and has a start\<close>
  "span_well_formed ann =
     (span_readable ann \<and>
      (case ann of
         Value v \<Rightarrow> project_labelled ann \<and> ann_start v \<noteq> None \<longrightarrow> ann_end v \<noteq> None
       | _ \<Rightarrow> True))"

definition project_span :: "annotation \<Rightarrow> (int \<times> int) option" where
  \<comment> \<open>the offsets of a span labelled PROJECT\<close>
  "project_span ann =
     (case ann of
        Value v \<Rightarrow>
          (case (ann_start v, ann_end v) of
             (Some s, Some e) \<Rightarrow> if project_labelled ann then Some (s, e) else None
           | _ \<Rightarrow> None)
      | _ \<Rightarrow> None)"

definition spec_hits :: "(int \<times> int) list \<Rightarrow> annotation \<Rightarrow> nat \<Rightarrow> bool" where
  \<comment> \<open>the annotation is labelled PROJECT and overlaps token \<open>i\<close>\<close>
  "spec_hits spans ann i =
     (case project_span ann of
        None \<Rightarrow> False
      | Some (s, e) \<Rightarrow> i < length spans \<and> spec_overlap s e (spans ! i))"

definition spec_mark :: "(int \<times> int) list \<Rightarrow> annotation \<Rightarrow> nat \<Rightarrow> string" where
  \<comment> \<open>the first token an annotation overlaps is tagged B-PROJECT, every later one
      I-PROJECT\<close>
  "spec_mark spans ann i =
     (if \<exists>j \<in> set [0..<i]. spec_hits spans ann j then ''I-PROJECT'' else ''B-PROJECT'')"

definition spec_tag :: "(int \<times> int) list \<Rightarrow> annotation list \<Rightarrow> nat \<Rightarrow> string" where
  \<comment> \<open>the tag of token \<open>i\<close>: O when no annotation overlaps it, otherwise the mark of the
      last annotation of the list that does\<close>
  "spec_tag spans anns i =
     (case filter (\<lambda>a. spec_hits spans a i) (rev anns) of
        [] \<Rightarrow> ''O''
      | a # earlier \<Rightarrow> spec_mark spans a i)"

definition id2label :: "int \<Rightarrow> string option" where
  \<comment> \<open>the inverse of the enumeration: the id \<open>i\<close> stands for \<open>label_list[i]\<close>\<close>
  "id2label i = (if 0 \<le> i \<and> i < int (length label_list) then Some (label_list ! nat i) else None)"

section \<open>Inputs of the geolocation examples\<close>

definition perth_context :: string where
  "perth_context = ''The project lies in WA near Perth''"

definition perth_australia :: candidate where
  "perth_australia = \<lparr>cand_name = ''Perth, Australia'', cand_latitude = - 3195/100,
     cand_longitude = 11586/100\<rparr>"

definition perth_uk :: candidate where
  "perth_uk = \<lparr>cand_name = ''Perth, UK'', cand_latitude = 5639/100, cand_longitude = - 343/100\<rparr>"

definition wa_candidate :: candidate where
  "wa_candidate = \<lparr>cand_name = ''Western Australia, Australia'', cand_latitude = - 25,
     cand_longitude = 122\<rparr>"

definition wa_geolocator :: geocoder where
  \<comment> \<open>a backend that knows one place and times out on every other name\<close>
  "wa_geolocator location_name limit =
     (if location_name = ''Western Australia''
      then Inr (Some [\<lparr>loc_address = ''Western Australia, Australia'',
                        loc_latitude = - 25, loc_longitude = 122\<rparr>])
      else Inl GeocoderTimedOut)"



definition wa_mention :: mention where
  "wa_mention = \<lparr>pdf_file = ''report.pdf'', page_number = 1, project_name = ''Acme Gold'',
     ner_confidence = 9/10, context_sentence = ''in WA'', ner_coordinates = None\<rparr>"

section \<open>Lemmas: the loops of the aligner\<close>

lemma tag_tokens_Cons:
  "tag_tokens s (Some e) l i (sp # spans) first tags =
     (if spec_overlap s e sp
      then (if i < length tags
            then tag_tokens s (Some e) l (Suc i) spans False
                   (tags[i := (if first then ''B-'' else ''I-'') @ l])
            else Inl IndexError)
      else tag_tokens s (Some e) l (Suc i) spans first tags)"
  by (cases sp) (simp add: spec_overlap_def)

lemma tag_tokens_result:
  "i + length spans \<le> length tags \<Longrightarrow>
   \<exists>tags'. tag_tokens s (Some e) l i spans first tags = Inr tags' \<and> length tags' = length tags \<and>
     (\<forall>k < length tags. tags' ! k =
        (if i \<le> k \<and> k < i + length spans \<and> spec_overlap s e (spans ! (k - i))
         then (if first \<and> (\<forall>j < k - i. \<not> spec_overlap s e (spans ! j)) then ''B-'' @ l else ''I-'' @ l)
         else tags ! k))"
proof (induction spans arbitrary: i first tags)
  case Nil
  then show ?case by auto
next
  case (Cons sp spans)
  have len: "Suc i + length spans \<le> length tags" and i: "i < length tags"
    using Cons.prems by simp_all
  show ?case
  proof (cases "spec_overlap s e sp")
    case True
    let ?t1 = "tags[i := (if first then ''B-'' else ''I-'') @ l]"
    from len have "Suc i + length spans \<le> length ?t1" by simp
    from Cons.IH[OF this, of False] obtain tags' where
      r: "tag_tokens s (Some e) l (Suc i) spans False ?t1 = Inr tags'" and
      n: "length tags' = length ?t1" and
      c: "\<forall>k < length ?t1. tags' ! k =
        (if Suc i \<le> k \<and> k < Suc i + length spans \<and> spec_overlap s e (spans ! (k - Suc i))
         then ''I-'' @ l else ?t1 ! k)"
      by auto
    have "tag_tokens s (Some e) l i (sp # spans) first tags = Inr tags'"
      using True i r by (simp only: tag_tokens_Cons if_True)
    moreover have "length tags' = length tags" using n by simp
    moreover have "\<forall>k < length tags. tags' ! k =
        (if i \<le> k \<and> k < i + length (sp # spans) \<and> spec_overlap s e ((sp # spans) ! (k - i))
         then (if first \<and> (\<forall>j < k - i. \<not> spec_overlap s e ((sp # spans) ! j)) then ''B-'' @ l else ''I-'' @ l)
         else tags ! k)"
    proof (intro allI impI)
      fix k assume k: "k < length tags"
      consider "k < i" | "k = i" | "i < k" by linarith
      then show "tags' ! k =
        (if i \<le> k \<and> k < i + length (sp # spans) \<and> spec_overlap s e ((sp # spans) ! (k - i))
         then (if first \<and> (\<forall>j < k - i. \<not> spec_overlap s e ((sp # spans) ! j)) then ''B-'' @ l else ''I-'' @ l)
         else tags ! k)"
      proof cases
        case 1
        then show ?thesis using c k by simp
      next
        case 2
        then show ?thesis using c k True i by simp
      next
        case 3
        then obtain m where m: "k - i = Suc m" "k - Suc i = m" by (cases "k - i") auto
        have "\<not> (\<forall>j < Suc m. \<not> spec_overlap s e ((sp # spans) ! j))"
          using True by (auto intro: exI[of _ 0])
        then show ?thesis using c k 3 m by auto
      qed
    qed
    ultimately show ?thesis by blast
  next
    case False
    from Cons.IH[OF len, of first] obtain tags' where
      r: "tag_tokens s (Some e) l (Suc i) spans first tags = Inr tags'" and
      n: "length tags' = length tags" and
      c: "\<forall>k < length tags. tags' ! k =
        (if Suc i \<le> k \<and> k < Suc i + length spans \<and> spec_overlap s e (spans ! (k - Suc i))
         then (if first \<and> (\<forall>j < k - Suc i. \<not> spec_overlap s e (spans ! j)) then ''B-'' @ l else ''I-'' @ l)
         else tags ! k)"
      by auto
    have "tag_tokens s (Some e) l i (sp # spans) first tags = Inr tags'"
      using False r by (simp only: tag_tokens_Cons if_False)
    moreover have "\<forall>k < length tags. tags' ! k =
        (if i \<le> k \<and> k < i + length (sp # spans) \<and> spec_overlap s e ((sp # spans) ! (k - i))
         then (if first \<and> (\<forall>j < k - i. \<not> spec_overlap s e ((sp # spans) ! j)) then ''B-'' @ l else ''I-'' @ l)
         else tags ! k)"
    proof (intro allI impI)
      fix k assume k: "k < length tags"
      consider "k < i" | "k = i" | "i < k" by linarith
      then show "tags' ! k =
        (if i \<le> k \<and> k < i + length (sp # spans) \<and> spec_overlap s e ((sp # spans) ! (k - i))
         then (if first \<and> (\<forall>j < k - i. \<not> spec_overlap s e ((sp # spans) ! j)) then ''B-'' @ l else ''I-'' @ l)
         else tags ! k)"
      proof cases
        case 1
        then show ?thesis using c k by simp
      next
        case 2
        then show ?thesis using c k False by simp
      next
        case 3
        then obtain m where m: "k - i = Suc m" "k - Suc i = m" by (cases "k - i") auto
        have "(\<forall>j < Suc m. \<not> spec_overlap s e ((sp # spans) ! j)) = (\<forall>j < m. \<not> spec_overlap s e (spans ! j))"
          using False by (simp add: All_less_Suc2)
        then show ?thesis using c k 3 m by auto
      qed
    qed
    ultimately show ?thesis using n by blast
  qed
qed

lemma apply_annotation_result:
  assumes wf: "span_well_formed ann" and len: "length spans \<le> length tags"
  shows "\<exists>tags'. apply_annotation spans tags ann = Inr tags' \<and> length tags' = length tags \<and>
     (\<forall>k < length tags. tags' ! k =
        (if spec_hits spans ann k then spec_mark spans ann k else tags ! k))"
proof (cases "project_span ann")
  case None
  then have "apply_annotation spans tags ann = Inr tags"
    using wf
    by (auto simp: apply_annotation_def project_span_def span_well_formed_def span_readable_def
        project_labelled_def first_label_def empty_value_def
        split: option.splits list.splits if_splits json_key.splits)
  moreover have "\<And>k. \<not> spec_hits spans ann k" using None by (simp add: spec_hits_def)
  ultimately show ?thesis by simp
next
  case (Some se)
  obtain s e where se: "se = (s, e)" by (cases se)
  from Some se have ap: "apply_annotation spans tags ann = tag_tokens s (Some e) ''PROJECT'' 0 spans True tags"
    by (auto simp: apply_annotation_def project_span_def project_labelled_def first_label_def
        split: option.splits list.splits if_splits json_key.splits)
  from len have "0 + length spans \<le> length tags" by simp
  from tag_tokens_result[OF this, of s e "''PROJECT''" True] obtain tags' where
    r: "tag_tokens s (Some e) ''PROJECT'' 0 spans True tags = Inr tags'" and
    n: "length tags' = length tags" and
    c0: "\<forall>k < length tags. tags' ! k =
        (if 0 \<le> k \<and> k < 0 + length spans \<and> spec_overlap s e (spans ! (k - 0))
         then (if True \<and> (\<forall>j < k - 0. \<not> spec_overlap s e (spans ! j)) then ''B-'' @ ''PROJECT'' else ''I-'' @ ''PROJECT'')
         else tags ! k)"
    by blast
  from c0 have c: "\<forall>k < length tags. tags' ! k =
        (if k < length spans \<and> spec_overlap s e (spans ! k)
         then (if (\<forall>j < k. \<not> spec_overlap s e (spans ! j)) then ''B-PROJECT'' else ''I-PROJECT'')
         else tags ! k)"
    by auto
  have h: "\<And>k. spec_hits spans ann k = (k < length spans \<and> spec_overlap s e (spans ! k))"
    using Some se by (simp add: spec_hits_def)
  have "\<forall>k < length tags. tags' ! k =
        (if spec_hits spans ann k then spec_mark spans ann k else tags ! k)"
  proof (intro allI impI)
    fix k assume k: "k < length tags"
    show "tags' ! k = (if spec_hits spans ann k then spec_mark spans ann k else tags ! k)"
    proof (cases "spec_hits spans ann k")
      case False
      from c k have "tags' ! k =
        (if k < length spans \<and> spec_overlap s e (spans ! k)
         then (if (\<forall>j < k. \<not> spec_overlap s e (spans ! j)) then ''B-PROJECT'' else ''I-PROJECT'')
         else tags ! k)"
        by blast
      moreover from False have "\<not> (k < length spans \<and> spec_overlap s e (spans ! k))"
        using h by blast
      ultimately have "tags' ! k = tags ! k" by (simp only: if_False)
      then show ?thesis using False by (simp only: if_False)
    next
      case True
      from c k have "tags' ! k =
        (if k < length spans \<and> spec_overlap s e (spans ! k)
         then (if (\<forall>j < k. \<not> spec_overlap s e (spans ! j)) then ''B-PROJECT'' else ''I-PROJECT'')
         else tags ! k)"
        by blast
      moreover from True have hit: "k < length spans \<and> spec_overlap s e (spans ! k)"
        using h by blast
      ultimately have t: "tags' ! k =
        (if (\<forall>j < k. \<not> spec_overlap s e (spans ! j)) then ''B-PROJECT'' else ''I-PROJECT'')"
        by simp
      have "(\<exists>j \<in> set [0..<k]. spec_hits spans ann j) = (\<not> (\<forall>j < k. \<not> spec_overlap s e (spans ! j)))"
        using hit by (auto simp: h)
      then have "spec_mark spans ann k =
        (if (\<forall>j < k. \<not> spec_overlap s e (spans ! j)) then ''B-PROJECT'' else ''I-PROJECT'')"
        by (simp add: spec_mark_def)
      with t show ?thesis using True by (simp only: if_True)
    qed
  qed
  then show ?thesis using ap r n by simp
qed

lemma align_annotations_result:
  "\<forall>a \<in> set anns. span_well_formed a \<Longrightarrow> length spans \<le> length tags \<Longrightarrow>
   \<exists>tags'. align_annotations spans tags anns = Inr tags' \<and> length tags' = length tags \<and>
     (\<forall>k < length tags. tags' ! k =
        (case filter (\<lambda>a. spec_hits spans a k) (rev anns) of
           [] \<Rightarrow> tags ! k
         | a # earlier \<Rightarrow> spec_mark spans a k))"
proof (induction anns arbitrary: tags)
  case Nil
  then show ?case by simp
next
  case (Cons a anns)
  from Cons.prems have wfa: "span_well_formed a" and wfs: "\<forall>a \<in> set anns. span_well_formed a"
    by simp_all
  from apply_annotation_result[OF wfa Cons.prems(2)] obtain t1 where
    r1: "apply_annotation spans tags a = Inr t1" and n1: "length t1 = length tags" and
    c1: "\<forall>k < length tags. t1 ! k = (if spec_hits spans a k then spec_mark spans a k else tags ! k)"
    by blast
  from Cons.prems(2) n1 have "length spans \<le> length t1" by simp
  from Cons.IH[OF wfs this] obtain t2 where
    r2: "align_annotations spans t1 anns = Inr t2" and n2: "length t2 = length t1" and
    c2: "\<forall>k < length t1. t2 ! k =
        (case filter (\<lambda>a. spec_hits spans a k) (rev anns) of
           [] \<Rightarrow> t1 ! k
         | a # earlier \<Rightarrow> spec_mark spans a k)"
    by blast
  have "\<forall>k < length tags. t2 ! k =
        (case filter (\<lambda>a. spec_hits spans a k) (rev (a # anns)) of
           [] \<Rightarrow> tags ! k
         | a # earlier \<Rightarrow> spec_mark spans a k)"
    using c1 c2 n1 by (auto split: list.splits)
  then show ?case using r1 r2 n1 n2 by simp
qed

lemma length_token_spans: "length (token_spans text pos toks) \<le> length toks"
  by (induction toks arbitrary: pos) (auto simp: Let_def le_SucI)

section \<open>Lemmas: the loop of the scorer\<close>

lemma candidate_score_nonneg: "0 \<le> candidate_score context cand"
  by (simp add: candidate_score_def Let_def)

lemma best_candidate_loop_result:
  "(best_candidate_loop context cands (best, m) = (best, m)
      \<and> (\<forall>j < length cands. candidate_score context (cands ! j) \<le> m))
   \<or> (\<exists>i < length cands.
        best_candidate_loop context cands (best, m)
          = (Some (cands ! i), candidate_score context (cands ! i))
        \<and> m < candidate_score context (cands ! i)
        \<and> (\<forall>j < length cands. candidate_score context (cands ! j) \<le> candidate_score context (cands ! i))
        \<and> (\<forall>j < i. candidate_score context (cands ! j) < candidate_score context (cands ! i)))"
proof (induction cands arbitrary: best m)
  case Nil
  then show ?case by simp
next
  case (Cons c cands)
  let ?s = "candidate_score context"
  show ?case
  proof (cases "?s c > m")
    case True
    then have step: "best_candidate_loop context (c # cands) (best, m)
        = best_candidate_loop context cands (Some c, ?s c)"
      by simp
    from Cons.IH[of "Some c" "?s c"] show ?thesis
    proof (elim disjE exE conjE)
      assume a: "best_candidate_loop context cands (Some c, ?s c) = (Some c, ?s c)"
        and b: "\<forall>j < length cands. ?s (cands ! j) \<le> ?s c"
      have "\<forall>j < length (c # cands). ?s ((c # cands) ! j) \<le> ?s ((c # cands) ! 0)"
        using b by (auto simp: nth_Cons split: nat.splits)
      then have "0 < length (c # cands) \<and>
          best_candidate_loop context (c # cands) (best, m) = (Some ((c # cands) ! 0), ?s ((c # cands) ! 0))
          \<and> m < ?s ((c # cands) ! 0)
          \<and> (\<forall>j < length (c # cands). ?s ((c # cands) ! j) \<le> ?s ((c # cands) ! 0))
          \<and> (\<forall>j < 0. ?s ((c # cands) ! j) < ?s ((c # cands) ! 0))"
        using step a True by simp
      then show ?thesis by blast
    next
      fix i
      assume i: "i < length cands"
        and a: "best_candidate_loop context cands (Some c, ?s c) = (Some (cands ! i), ?s (cands ! i))"
        and lt: "?s c < ?s (cands ! i)"
        and b: "\<forall>j < length cands. ?s (cands ! j) \<le> ?s (cands ! i)"
        and e: "\<forall>j < i. ?s (cands ! j) < ?s (cands ! i)"
      have "Suc i < length (c # cands) \<and>
          best_candidate_loop context (c # cands) (best, m) = (Some ((c # cands) ! Suc i), ?s ((c # cands) ! Suc i))
          \<and> m < ?s ((c # cands) ! Suc i)
          \<and> (\<forall>j < length (c # cands). ?s ((c # cands) ! j) \<le> ?s ((c # cands) ! Suc i))
          \<and> (\<forall>j < Suc i. ?s ((c # cands) ! j) < ?s ((c # cands) ! Suc i))"
        using step a True i lt b e by (auto simp: nth_Cons split: nat.splits)
      then show ?thesis by blast
    qed
  next
    case False
    then have step: "best_candidate_loop context (c # cands) (best, m)
        = best_candidate_loop context cands (best, m)"
      by simp
    from Cons.IH[of best m] show ?thesis
    proof (elim disjE exE conjE)
      assume a: "best_candidate_loop context cands (best, m) = (best, m)"
        and b: "\<forall>j < length cands. ?s (cands ! j) \<le> m"
      have "\<forall>j < length (c # cands). ?s ((c # cands) ! j) \<le> m"
        using b False by (auto simp: nth_Cons split: nat.splits)
      then show ?thesis using step a by simp
    next
      fix i
      assume i: "i < length cands"
        and a: "best_candidate_loop context cands (best, m) = (Some (cands ! i), ?s (cands ! i))"
        and lt: "m < ?s (cands ! i)"
        and b: "\<forall>j < length cands. ?s (cands ! j) \<le> ?s (cands ! i)"
        and e: "\<forall>j < i. ?s (cands ! j) < ?s (cands ! i)"
      have "Suc i < length (c # cands) \<and>
          best_candidate_loop context (c # cands) (best, m) = (Some ((c # cands) ! Suc i), ?s ((c # cands) ! Suc i))
          \<and> m < ?s ((c # cands) ! Suc i)
          \<and> (\<forall>j < length (c # cands). ?s ((c # cands) ! j) \<le> ?s ((c # cands) ! Suc i))
          \<and> (\<forall>j < Suc i. ?s ((c # cands) ! j) < ?s ((c # cands) ! Suc i))"
        using step a False i lt b e by (auto simp: nth_Cons split: nat.splits)
      then show ?thesis by blast
    qed
  qed
qed

lemma perth_context_cues:
  "\<not> str_contains ''western australia'' (str_lower perth_context)"
  "\<not> str_contains ''australia'' (str_lower perth_context)"
  by code_simp+

lemma perth_score:
  "\<not> str_contains ''western australia'' (str_lower (cand_name cand)) \<Longrightarrow>
   candidate_score perth_context cand = 0"
  by (simp add: candidate_score_def Let_def perth_context_cues)

section \<open>Lemmas: the tag ids\<close>

lemma label_encoding_values:
  "label_encoding ''O'' = Some 0" "label_encoding ''B-PROJECT'' = Some 1"
  "label_encoding ''I-PROJECT'' = Some 2"
  by (simp_all add: label_encoding_def label_list_def enumerate_simps)

lemma id2label_encode:
  "tag \<in> set label_list \<Longrightarrow> map id2label (encode_tags [tag]) = [Some tag]"
  by (auto simp: encode_tags_def label_encoding_values id2label_def label_list_def)

lemma roundtrip_tags:
  "set tags \<subseteq> set label_list \<Longrightarrow> map id2label (encode_tags tags) = map Some tags"
proof (induction tags)
  case Nil
  then show ?case by (simp add: encode_tags_def)
next
  case (Cons t tags)
  then have "map id2label (encode_tags [t]) = [Some t]" by (simp add: id2label_encode)
  moreover have "encode_tags (t # tags) = encode_tags [t] @ encode_tags tags"
    by (simp add: encode_tags_def)
  ultimately show ?case using Cons by simp
qed

lemma encode_range: "i \<in> set (encode_tags tags) \<Longrightarrow> i \<in> {0, 1, 2}"
  by (auto simp: encode_tags_def label_encoding_def label_list_def enumerate_simps split: option.splits if_splits)

lemma align_labels_result:
  "\<forall>w. Some w \<in> set word_ids \<longrightarrow> w < length label \<Longrightarrow>
   \<exists>out. align_labels label previous word_ids = Inr out \<and> length out = length word_ids \<and>
     (\<forall>k < length word_ids. out ! k =
        (case word_ids ! k of
           None \<Rightarrow> - 100
         | Some w \<Rightarrow> if word_ids ! k = (if k = 0 then previous else word_ids ! (k - 1)) then - 100
                      else label ! w))"
proof (induction word_ids arbitrary: previous)
  case Nil
  then show ?case by simp
next
  case (Cons word_idx word_ids)
  from Cons.prems have "\<forall>w. Some w \<in> set word_ids \<longrightarrow> w < length label" by simp
  from Cons.IH[OF this, of word_idx] obtain rest where
    r: "align_labels label word_idx word_ids = Inr rest" and
    n: "length rest = length word_ids" and
    c: "\<forall>k < length word_ids. rest ! k =
        (case word_ids ! k of
           None \<Rightarrow> - 100
         | Some w \<Rightarrow> if word_ids ! k = (if k = 0 then word_idx else word_ids ! (k - 1)) then - 100
                      else label ! w)"
    by blast
  define here where "here =
     (case word_idx of None \<Rightarrow> - 100
      | Some w \<Rightarrow> if word_idx = previous then - 100 else label ! w)"
  have step: "align_labels label previous (word_idx # word_ids) = Inr (here # rest)"
    using r Cons.prems by (auto simp: here_def split: option.splits)
  have "\<forall>k < length (word_idx # word_ids). (here # rest) ! k =
        (case (word_idx # word_ids) ! k of
           None \<Rightarrow> - 100
         | Some w \<Rightarrow> if (word_idx # word_ids) ! k = (if k = 0 then previous else (word_idx # word_ids) ! (k - 1)) then - 100
                      else label ! w)"
  proof (intro allI impI)
    fix k assume k: "k < length (word_idx # word_ids)"
    show "(here # rest) ! k =
        (case (word_idx # word_ids) ! k of
           None \<Rightarrow> - 100
         | Some w \<Rightarrow> if (word_idx # word_ids) ! k = (if k = 0 then previous else (word_idx # word_ids) ! (k - 1)) then - 100
                      else label ! w)"
    proof (cases k)
      case 0
      then show ?thesis by (auto simp: here_def split: option.splits)
    next
      case (Suc m)
      then have m: "m < length word_ids" using k by simp
      from c m have "rest ! m =
        (case word_ids ! m of
           None \<Rightarrow> - 100
         | Some w \<Rightarrow> if word_ids ! m = (if m = 0 then word_idx else word_ids ! (m - 1)) then - 100
                      else label ! w)" by blast
      then show ?thesis using Suc by (cases m) (simp_all split: option.splits)
    qed
  qed
  then show ?case using step n by simp
qed

section \<open>Lemmas: the pipeline\<close>

text \<open>
  Whatever its input, the loop of the pipeline ends in one of two ways: it writes nothing
  and raises nothing, or it writes one record, with no newline behind it, and raises
  NameError.
\<close>

lemma geocode_location_returns: "\<exists>cands. geocode_location geolocator name = Inr cands"
  by (auto simp: geocode_location_def
      split: sum.splits option.splits list.splits backend_error.splits)

lemma gather_candidates_returns: "\<exists>cands. gather_candidates geolocator names = Inr cands"
proof (induction names)
  case Nil
  then show ?case by simp
next
  case (Cons name names)
  obtain found where "geocode_location geolocator name = Inr found"
    using geocode_location_returns by blast
  with Cons show ?case by auto
qed

lemma geolocate_records_outcome:
  "geolocate_records dumps geolocator records out = (out, None)
   \<or> (\<exists>r choice. r \<in> set records \<and>
         geolocate_records dumps geolocator records out =
           (Some ((case out of None \<Rightarrow> [] | Some written \<Rightarrow> written)
                  @ dumps (update_record r choice)), Some NameError))"
proof (induction records)
  case Nil
  then show ?case by simp
next
  case (Cons r records)
  obtain cands where g: "gather_candidates geolocator
      (simulate_llm_location_extraction (context_sentence r)) = Inr cands"
    using gather_candidates_returns by blast
  show ?case
  proof (cases "simulate_llm_location_extraction (context_sentence r) = [] \<or> cands = []")
    case True
    then have "geolocate_records dumps geolocator (r # records) out
        = geolocate_records dumps geolocator records out"
      using g by (auto simp: Let_def)
    with Cons show ?thesis by auto
  next
    case False
    then have "geolocate_records dumps geolocator (r # records) out =
        (Some ((case out of None \<Rightarrow> [] | Some written \<Rightarrow> written)
               @ dumps (update_record r
                   (simulate_llm_disambiguation (context_sentence r) cands))), Some NameError)"
      using g by (simp add: Let_def)
    then show ?thesis by auto
  qed
qed

section \<open>Theorems: the aligner\<close>

text \<open>
  C1, as the specification states it: on the text "Acme Gold Project near Kalgoorlie" with
  the annotation from 0 to 14 labelled PROJECT, the tags would be B-PROJECT, I-PROJECT, O,
  O, O. The code does not produce them: the span of "Project" is (10, 17), and
  \<open>max(0, 10) = 10 < 14 = min(14, 17)\<close>, so the third token overlaps the annotation.
\<close>

theorem acme_tags_not_as_specified:
  "token_spans acme_text 0 (split_ws acme_text) = [(0, 4), (5, 9), (10, 17), (18, 22), (23, 33)]
   \<and> convert_json_to_iob acme_file \<noteq>
       Inr [\<lparr>tokens = [''Acme'', ''Gold'', ''Project'', ''near'', ''Kalgoorlie''],
             ner_tags = [''B-PROJECT'', ''I-PROJECT'', ''O'', ''O'', ''O'']\<rparr>]"
  by code_simp

text \<open>
  C1, amended: on that input the tokens are Acme, Gold, Project, near, Kalgoorlie with the
  spans (0,4), (5,9), (10,17), (18,22), (23,33), and the tags are B-PROJECT, I-PROJECT,
  I-PROJECT, O, O: the annotation ends inside "Project", which it therefore overlaps.
\<close>

theorem acme_tags:
  "token_spans acme_text 0 (split_ws acme_text) = [(0, 4), (5, 9), (10, 17), (18, 22), (23, 33)]
   \<and> convert_json_to_iob acme_file =
       Inr [\<lparr>tokens = [''Acme'', ''Gold'', ''Project'', ''near'', ''Kalgoorlie''],
             ner_tags = [''B-PROJECT'', ''I-PROJECT'', ''I-PROJECT'', ''O'', ''O'']\<rparr>]"
  by code_simp

text \<open>
  C6: for every annotation record whose spans are well formed, the aligner returns one tag
  for each token, and the tag of a token is the one the specification describes: O unless
  an annotation labelled PROJECT overlaps the token, where overlap is
  \<open>max(ann.start, tok.start) < min(ann.end, tok.end)\<close>; otherwise the tag set by the last
  such annotation of the list, which is B-PROJECT when the token is the first one that
  annotation overlaps and I-PROJECT when it is a later one.
\<close>

theorem aligner_follows_specification:
  assumes "\<forall>a \<in> set annotations. span_well_formed a"
  shows "\<exists>tags. tag_record text annotations = Inr \<lparr>tokens = split_ws text, ner_tags = tags\<rparr>
           \<and> length tags = length (split_ws text)
           \<and> (\<forall>i < length tags.
                 tags ! i = spec_tag (token_spans text 0 (split_ws text)) annotations i)"
proof -
  let ?toks = "split_ws text"
  let ?spans = "token_spans text 0 ?toks"
  let ?init = "replicate (length ?toks) ''O''"
  have "length ?spans \<le> length ?init" by (simp add: length_token_spans)
  from align_annotations_result[OF assms this] obtain tags where
    r: "align_annotations ?spans ?init annotations = Inr tags" and
    n: "length tags = length ?init" and
    c: "\<forall>k < length ?init. tags ! k =
        (case filter (\<lambda>a. spec_hits ?spans a k) (rev annotations) of
           [] \<Rightarrow> ?init ! k
         | a # earlier \<Rightarrow> spec_mark ?spans a k)"
    by blast
  have "tag_record text annotations = Inr \<lparr>tokens = ?toks, ner_tags = tags\<rparr>"
    using r by (simp add: tag_record_def)
  moreover have "length tags = length ?toks" using n by simp
  moreover have "\<forall>i < length tags. tags ! i = spec_tag ?spans annotations i"
    using c n by (auto simp: spec_tag_def split: list.splits)
  ultimately show ?thesis by blast
qed

theorem aligner_follows_specification_witness:
  "span_well_formed project_0_14 \<and> span_well_formed location_23_33
   \<and> span_well_formed project_5_17
   \<and> tag_record acme_text [project_0_14, location_23_33, project_5_17] =
       Inr \<lparr>tokens = [''Acme'', ''Gold'', ''Project'', ''near'', ''Kalgoorlie''],
            ner_tags = [''B-PROJECT'', ''B-PROJECT'', ''I-PROJECT'', ''O'', ''O'']\<rparr>
   \<and> (\<exists>tags. tag_record acme_text [project_0_14, location_23_33, project_5_17] =
                Inr \<lparr>tokens = split_ws acme_text, ner_tags = tags\<rparr>
           \<and> length tags = length (split_ws acme_text)
           \<and> (\<forall>i < length tags.
                 tags ! i = spec_tag (token_spans acme_text 0 (split_ws acme_text))
                              [project_0_14, location_23_33, project_5_17] i))"
proof -
  have wf: "span_well_formed project_0_14" "span_well_formed location_23_33"
    "span_well_formed project_5_17"
    by (simp_all add: span_well_formed_def span_readable_def project_labelled_def
        project_0_14_def location_23_33_def project_5_17_def)
  then have "\<forall>a \<in> set [project_0_14, location_23_33, project_5_17]. span_well_formed a"
    by simp
  from aligner_follows_specification[OF this, of acme_text]
  have "\<exists>tags. tag_record acme_text [project_0_14, location_23_33, project_5_17] =
                Inr \<lparr>tokens = split_ws acme_text, ner_tags = tags\<rparr>
           \<and> length tags = length (split_ws acme_text)
           \<and> (\<forall>i < length tags.
                 tags ! i = spec_tag (token_spans acme_text 0 (split_ws acme_text))
                              [project_0_14, location_23_33, project_5_17] i)" .
  moreover have "tag_record acme_text [project_0_14, location_23_33, project_5_17] =
       Inr \<lparr>tokens = [''Acme'', ''Gold'', ''Project'', ''near'', ''Kalgoorlie''],
            ner_tags = [''B-PROJECT'', ''B-PROJECT'', ''I-PROJECT'', ''O'', ''O'']\<rparr>"
    by code_simp
  ultimately show ?thesis using wf by blast
qed

text \<open>
  C10, as the specification states it: when every span labelled PROJECT carries both a
  start and an end, the conversion raises on no span. It does, on spans that are not
  labelled PROJECT: line 39 takes the first element of the span's labels before the guard
  of line 40, and raises IndexError when the list is empty and TypeError when \<open>"labels"\<close>
  holds \<open>null\<close>; and it calls \<open>val.get\<close>, which raises AttributeError when \<open>"value"\<close> holds
  \<open>null\<close>.
\<close>

theorem unlabelled_span_raises:
  "\<not> project_labelled unlabelled_0_4
   \<and> tag_record acme_text [unlabelled_0_4] = Inl IndexError
   \<and> \<not> project_labelled null_labels_0_4
   \<and> tag_record acme_text [null_labels_0_4] = Inl TypeError
   \<and> \<not> project_labelled null_value
   \<and> tag_record acme_text [null_value] = Inl AttributeError"
  by code_simp

text \<open>
  C10, amended: when the \<open>"value"\<close> of every span is missing or an object, the \<open>"labels"\<close>
  of every span are missing or a list that is not empty, and every span labelled PROJECT
  carries both a start and an end, the conversion of a record raises on no span and returns
  the record's tags. The guard of line 40 skips a span labelled PROJECT only when its start
  is missing: for some input whose span is labelled PROJECT with a start and no end (the
  text "Acme Gold Project near Kalgoorlie" with the span that starts at 0), the conversion
  raises TypeError.
\<close>

theorem conversion_total_with_offsets:
  "((\<forall>a \<in> set annotations. span_readable a \<and> (project_labelled a \<longrightarrow> has_offsets a)) \<longrightarrow>
      (\<exists>out. tag_record text annotations = Inr out))
   \<and> project_0_open =
        Value \<lparr>ann_start = Some 0, ann_end = None, ann_labels = Value [''PROJECT'']\<rparr>
   \<and> span_readable project_0_open \<and> project_labelled project_0_open
   \<and> tag_record acme_text [project_0_open] = Inl TypeError"
proof (intro conjI impI)
  let ?toks = "split_ws text"
  let ?spans = "token_spans text 0 ?toks"
  let ?init = "replicate (length ?toks) ''O''"
  assume a: "\<forall>a \<in> set annotations. span_readable a \<and> (project_labelled a \<longrightarrow> has_offsets a)"
  have "\<forall>a \<in> set annotations. span_well_formed a"
  proof
    fix a assume "a \<in> set annotations"
    with a have "span_readable a" and "project_labelled a \<longrightarrow> has_offsets a" by auto
    then show "span_well_formed a"
      by (auto simp: span_well_formed_def has_offsets_def split: json_key.splits)
  qed
  moreover have "length ?spans \<le> length ?init" by (simp add: length_token_spans)
  ultimately obtain tags where "align_annotations ?spans ?init annotations = Inr tags"
    using align_annotations_result by blast
  then show "\<exists>out. tag_record text annotations = Inr out"
    by (simp add: tag_record_def)
next
  show "project_0_open =
        Value \<lparr>ann_start = Some 0, ann_end = None, ann_labels = Value [''PROJECT'']\<rparr>"
    by (simp add: project_0_open_def)
next
  show "span_readable project_0_open"
    by (simp add: span_readable_def project_0_open_def)
next
  show "project_labelled project_0_open"
    by (simp add: project_labelled_def project_0_open_def)
next
  show "tag_record acme_text [project_0_open] = Inl TypeError" by code_simp
qed

theorem conversion_total_with_offsets_witness:
  "span_readable project_0_14 \<and> project_labelled project_0_14 \<and> has_offsets project_0_14
   \<and> span_readable location_23_33 \<and> \<not> project_labelled location_23_33
   \<and> (\<exists>out. tag_record acme_text [project_0_14, location_23_33] = Inr out)
   \<and> tag_record acme_text [project_0_open] = Inl TypeError"
proof -
  have p: "span_readable project_0_14" "project_labelled project_0_14" "has_offsets project_0_14"
    "span_readable location_23_33" "\<not> project_labelled location_23_33"
    by (simp_all add: span_readable_def project_labelled_def has_offsets_def
        project_0_14_def location_23_33_def)
  then have h: "\<forall>a \<in> set [project_0_14, location_23_33].
      span_readable a \<and> (project_labelled a \<longrightarrow> has_offsets a)"
    by simp
  from conversion_total_with_offsets[of "[project_0_14, location_23_33]" acme_text] h
  have "(\<exists>out. tag_record acme_text [project_0_14, location_23_33] = Inr out)
     \<and> tag_record acme_text [project_0_open] = Inl TypeError"
    by blast
  then show ?thesis using p by simp
qed

section \<open>Theorems: the tag ids\<close>

text \<open>
  C9: a sequence of the tags O, B-PROJECT and I-PROJECT, encoded by the enumeration
  O = 0, B-PROJECT = 1, I-PROJECT = 2 and decoded by its inverse, is the sequence itself.
  The ignore value -100 is the id of no tag and decodes to nothing. In the sub-word
  alignment of a tag sequence, a piece of no word and a piece whose word is that of the
  piece before it get the ignore value, and every other piece gets an id that decodes to
  the tag of its word.
\<close>

theorem tag_ids_roundtrip:
  "encode_tags label_list = [0, 1, 2]
   \<and> (set tags \<subseteq> set label_list \<longrightarrow> map id2label (encode_tags tags) = map Some tags)
   \<and> - 100 \<notin> set (encode_tags tags) \<and> id2label (- 100) = None
   \<and> (set tags \<subseteq> set label_list \<and> (\<forall>w. Some w \<in> set word_ids \<longrightarrow> w < length tags) \<longrightarrow>
        (\<exists>label_ids. align_labels (encode_tags tags) None word_ids = Inr label_ids
           \<and> length label_ids = length word_ids
           \<and> (\<forall>k < length word_ids.
                 case word_ids ! k of
                   None \<Rightarrow> label_ids ! k = - 100
                 | Some w \<Rightarrow>
                     if 0 < k \<and> word_ids ! (k - 1) = Some w then label_ids ! k = - 100
                     else id2label (label_ids ! k) = Some (tags ! w))))"
proof (intro conjI impI)
  show "encode_tags label_list = [0, 1, 2]"
    by (simp add: encode_tags_def label_encoding_values label_list_def)
next
  assume "set tags \<subseteq> set label_list"
  then show "map id2label (encode_tags tags) = map Some tags" by (rule roundtrip_tags)
next
  show "- 100 \<notin> set (encode_tags tags)" using encode_range[of "- 100" tags] by auto
next
  show "id2label (- 100) = None" by (simp add: id2label_def)
next
  assume a: "set tags \<subseteq> set label_list \<and> (\<forall>w. Some w \<in> set word_ids \<longrightarrow> w < length tags)"
  then have rt: "map id2label (encode_tags tags) = map Some tags" by (simp add: roundtrip_tags)
  have len: "length (encode_tags tags) = length tags" by (simp add: encode_tags_def)
  from a have "\<forall>w. Some w \<in> set word_ids \<longrightarrow> w < length (encode_tags tags)" by (simp add: len)
  from align_labels_result[OF this, of None] obtain out where
    r: "align_labels (encode_tags tags) None word_ids = Inr out" and
    n: "length out = length word_ids" and
    c: "\<forall>k < length word_ids. out ! k =
        (case word_ids ! k of
           None \<Rightarrow> - 100
         | Some w \<Rightarrow> if word_ids ! k = (if k = 0 then None else word_ids ! (k - 1)) then - 100
                      else encode_tags tags ! w)"
    by blast
  have "\<forall>k < length word_ids.
          case word_ids ! k of
            None \<Rightarrow> out ! k = - 100
          | Some w \<Rightarrow>
              if 0 < k \<and> word_ids ! (k - 1) = Some w then out ! k = - 100
              else id2label (out ! k) = Some (tags ! w)"
  proof (intro allI impI)
    fix k assume k: "k < length word_ids"
    show "case word_ids ! k of
            None \<Rightarrow> out ! k = - 100
          | Some w \<Rightarrow>
              if 0 < k \<and> word_ids ! (k - 1) = Some w then out ! k = - 100
              else id2label (out ! k) = Some (tags ! w)"
    proof (cases "word_ids ! k")
      case None
      then show ?thesis using c k by simp
    next
      case (Some w)
      then have "Some w \<in> set word_ids" using k by (metis nth_mem)
      then have w: "w < length tags" using a by blast
      have "id2label (encode_tags tags ! w) = Some (tags ! w)"
        using rt w len by (metis nth_map)
      then show ?thesis using c k Some by (cases k) auto
    qed
  qed
  then show "\<exists>label_ids. align_labels (encode_tags tags) None word_ids = Inr label_ids
           \<and> length label_ids = length word_ids
           \<and> (\<forall>k < length word_ids.
                 case word_ids ! k of
                   None \<Rightarrow> label_ids ! k = - 100
                 | Some w \<Rightarrow>
                     if 0 < k \<and> word_ids ! (k - 1) = Some w then label_ids ! k = - 100
                     else id2label (label_ids ! k) = Some (tags ! w))"
    using r n by blast
qed

theorem tag_ids_roundtrip_witness:
  "set [''B-PROJECT'', ''I-PROJECT'', ''O''] \<subseteq> set label_list
   \<and> map id2label (encode_tags [''B-PROJECT'', ''I-PROJECT'', ''O''])
       = map Some [''B-PROJECT'', ''I-PROJECT'', ''O'']
   \<and> list_all (\<lambda>w. w < length [''B-PROJECT'', ''I-PROJECT'', ''O'']) [0, 0, 1, 2]
   \<and> align_labels (encode_tags [''B-PROJECT'', ''I-PROJECT'', ''O'']) None
        [None, Some 0, Some 0, Some 1, Some 2, None] = Inr [- 100, 1, - 100, 2, 0, - 100]
   \<and> (\<exists>label_ids. align_labels (encode_tags [''B-PROJECT'', ''I-PROJECT'', ''O'']) None
                       [None, Some 0, Some 0, Some 1, Some 2, None] = Inr label_ids
           \<and> length label_ids = length [None, Some 0, Some 0, Some 1, Some (2::nat), None]
           \<and> (\<forall>k < length [None, Some 0, Some 0, Some 1, Some (2::nat), None].
                 case [None, Some 0, Some 0, Some 1, Some 2, None] ! k of
                   None \<Rightarrow> label_ids ! k = - 100
                 | Some w \<Rightarrow>
                     if 0 < k \<and> [None, Some 0, Some 0, Some 1, Some 2, None] ! (k - 1) = Some w
                     then label_ids ! k = - 100
                     else id2label (label_ids ! k) = Some ([''B-PROJECT'', ''I-PROJECT'', ''O''] ! w)))"
proof -
  let ?tags = "[''B-PROJECT'', ''I-PROJECT'', ''O'']"
  let ?ids = "[None, Some 0, Some 0, Some 1, Some (2::nat), None]"
  have s: "set ?tags \<subseteq> set label_list" by (simp add: label_list_def)
  have w: "\<forall>w. Some w \<in> set ?ids \<longrightarrow> w < length ?tags" by auto
  have l: "list_all (\<lambda>w. w < length ?tags) [0, 0, 1, 2]" by simp
  have e: "align_labels (encode_tags ?tags) None ?ids = Inr [- 100, 1, - 100, 2, 0, - 100]"
    by (simp add: encode_tags_def label_encoding_values)
  from tag_ids_roundtrip[of ?tags ?ids] s w
  have "map id2label (encode_tags ?tags) = map Some ?tags"
    and "\<exists>label_ids. align_labels (encode_tags ?tags) None ?ids = Inr label_ids
           \<and> length label_ids = length ?ids
           \<and> (\<forall>k < length ?ids.
                 case ?ids ! k of
                   None \<Rightarrow> label_ids ! k = - 100
                 | Some w \<Rightarrow>
                     if 0 < k \<and> ?ids ! (k - 1) = Some w then label_ids ! k = - 100
                     else id2label (label_ids ! k) = Some (?tags ! w))"
    by blast+
  then show ?thesis using s l e by blast
qed

section \<open>Theorems: candidate location names and geocoding\<close>

text \<open>
  C8: for every context sentence, the candidate names returned have no duplicates, none of
  them is one of The, A, An, This, Project, Company, none has two characters or fewer, and
  when the sentence contains "WA", "Western Australia" is among them.
\<close>

theorem extraction_candidates:
  "distinct (simulate_llm_location_extraction context)
   \<and> (\<forall>loc \<in> set (simulate_llm_location_extraction context).
         loc \<notin> {''The'', ''A'', ''An'', ''This'', ''Project'', ''Company''} \<and> 2 < length loc)
   \<and> (str_contains ''WA'' context \<longrightarrow>
         ''Western Australia'' \<in> set (simulate_llm_location_extraction context))"
  by (auto simp: simulate_llm_location_extraction_def Let_def stop_words_def)

theorem extraction_candidates_witness:
  "str_contains ''WA'' perth_context
   \<and> simulate_llm_location_extraction perth_context = [''Perth'', ''Western Australia'']
   \<and> ''Western Australia'' \<in> set (simulate_llm_location_extraction perth_context)
   \<and> distinct (simulate_llm_location_extraction perth_context)
   \<and> list_all (\<lambda>loc. loc \<notin> {''The'', ''A'', ''An'', ''This'', ''Project'', ''Company''} \<and> 2 < length loc)
        (simulate_llm_location_extraction perth_context)"
proof -
  have c: "str_contains ''WA'' perth_context" by code_simp
  have v: "simulate_llm_location_extraction perth_context = [''Perth'', ''Western Australia'']"
    by code_simp
  from extraction_candidates[of perth_context] c
  have "''Western Australia'' \<in> set (simulate_llm_location_extraction perth_context)"
    and "distinct (simulate_llm_location_extraction perth_context)"
    and "\<forall>loc \<in> set (simulate_llm_location_extraction perth_context).
         loc \<notin> {''The'', ''A'', ''An'', ''This'', ''Project'', ''Company''} \<and> 2 < length loc"
    by blast+
  then show ?thesis using c v by (simp add: list_all_iff)
qed




section \<open>Theorems: the scorer\<close>

text \<open>
  C5: with no candidate the result has no chosen location, no coordinates and the
  confidence 0.0. Otherwise the loop ends on the candidate of the highest score, the
  earliest one when several have it (every candidate before it has a strictly lower
  score); when that score is above 0.5 the result is this candidate with the confidence
  \<open>min(round(score, 4), 1.0)\<close>, and when it is not, the result is the first candidate of the
  list with the confidence 0.25.
\<close>

theorem disambiguation_postcondition:
  "simulate_llm_disambiguation context [] =
     \<lparr>chosen_location = None, coordinates = None, geolocation_confidence = 0,
      justification = ''No location candidates were provided to the simulation.''\<rparr>
   \<and> (candidates \<noteq> [] \<longrightarrow>
       (\<exists>i < length candidates.
          (\<forall>j < length candidates.
             candidate_score context (candidates ! j) \<le> candidate_score context (candidates ! i))
          \<and> (\<forall>j < i. candidate_score context (candidates ! j) < candidate_score context (candidates ! i))
          \<and> best_candidate_loop context candidates (None, - 1)
               = (Some (candidates ! i), candidate_score context (candidates ! i))
          \<and> simulate_llm_disambiguation context candidates =
              (if candidate_score context (candidates ! i) > 5/10
               then \<lparr>chosen_location = Some (cand_name (candidates ! i)),
                     coordinates = Some (cand_latitude (candidates ! i), cand_longitude (candidates ! i)),
                     geolocation_confidence = min (py_round4 (candidate_score context (candidates ! i))) 1,
                     justification =
                       ''Simulation selected candidate based on high contextual match (score: ''
                       @ str_float (min (py_round4 (candidate_score context (candidates ! i))) 1) @ '').''\<rparr>
               else \<lparr>chosen_location = Some (cand_name (hd candidates)),
                     coordinates = Some (cand_latitude (hd candidates), cand_longitude (hd candidates)),
                     geolocation_confidence = 25/100,
                     justification = ''Context was ambiguous. Simulation defaulted to the first available result.''\<rparr>)))"
proof (intro conjI impI)
  show "simulate_llm_disambiguation context [] =
     \<lparr>chosen_location = None, coordinates = None, geolocation_confidence = 0,
      justification = ''No location candidates were provided to the simulation.''\<rparr>"
    by (simp add: simulate_llm_disambiguation_def)
next
  let ?s = "candidate_score context"
  assume ne: "candidates \<noteq> []"
  then obtain c cs where cs: "candidates = c # cs" by (cases candidates) auto
  have "\<not> (\<forall>j < length candidates. ?s (candidates ! j) \<le> - 1)"
  proof
    assume "\<forall>j < length candidates. ?s (candidates ! j) \<le> - 1"
    then have "?s (candidates ! 0) \<le> - 1" using ne by simp
    moreover have "0 \<le> ?s (candidates ! 0)" by (rule candidate_score_nonneg)
    ultimately show False by simp
  qed
  with best_candidate_loop_result[of "context" candidates None "- 1"]
  obtain i where i: "i < length candidates"
    and loop: "best_candidate_loop context candidates (None, - 1) = (Some (candidates ! i), ?s (candidates ! i))"
    and mx: "\<forall>j < length candidates. ?s (candidates ! j) \<le> ?s (candidates ! i)"
    and first: "\<forall>j < i. ?s (candidates ! j) < ?s (candidates ! i)"
    by blast
  have "simulate_llm_disambiguation context candidates =
              (if ?s (candidates ! i) > 5/10
               then \<lparr>chosen_location = Some (cand_name (candidates ! i)),
                     coordinates = Some (cand_latitude (candidates ! i), cand_longitude (candidates ! i)),
                     geolocation_confidence = min (py_round4 (?s (candidates ! i))) 1,
                     justification =
                       ''Simulation selected candidate based on high contextual match (score: ''
                       @ str_float (min (py_round4 (?s (candidates ! i))) 1) @ '').''\<rparr>
               else \<lparr>chosen_location = Some (cand_name (hd candidates)),
                     coordinates = Some (cand_latitude (hd candidates), cand_longitude (hd candidates)),
                     geolocation_confidence = 25/100,
                     justification = ''Context was ambiguous. Simulation defaulted to the first available result.''\<rparr>)"
    using loop unfolding cs
    by (simp add: simulate_llm_disambiguation_def first_result_def Let_def del: best_candidate_loop.simps)
  with i loop mx first
  show "\<exists>i < length candidates.
          (\<forall>j < length candidates. ?s (candidates ! j) \<le> ?s (candidates ! i))
          \<and> (\<forall>j < i. ?s (candidates ! j) < ?s (candidates ! i))
          \<and> best_candidate_loop context candidates (None, - 1) = (Some (candidates ! i), ?s (candidates ! i))
          \<and> simulate_llm_disambiguation context candidates =
              (if ?s (candidates ! i) > 5/10
               then \<lparr>chosen_location = Some (cand_name (candidates ! i)),
                     coordinates = Some (cand_latitude (candidates ! i), cand_longitude (candidates ! i)),
                     geolocation_confidence = min (py_round4 (?s (candidates ! i))) 1,
                     justification =
                       ''Simulation selected candidate based on high contextual match (score: ''
                       @ str_float (min (py_round4 (?s (candidates ! i))) 1) @ '').''\<rparr>
               else \<lparr>chosen_location = Some (cand_name (hd candidates)),
                     coordinates = Some (cand_latitude (hd candidates), cand_longitude (hd candidates)),
                     geolocation_confidence = 25/100,
                     justification = ''Context was ambiguous. Simulation defaulted to the first available result.''\<rparr>)"
    by blast
qed

theorem disambiguation_postcondition_witness:
  "[perth_uk, wa_candidate, wa_candidate] \<noteq> []
   \<and> simulate_llm_disambiguation ''Mine in Western Australia'' [perth_uk, wa_candidate, wa_candidate] =
       \<lparr>chosen_location = Some ''Western Australia, Australia'', coordinates = Some (- 25, 122),
        geolocation_confidence = 1,
        justification =
          ''Simulation selected candidate based on high contextual match (score: 1.0).''\<rparr>
   \<and> (\<exists>i < length [perth_uk, wa_candidate, wa_candidate].
         best_candidate_loop ''Mine in Western Australia'' [perth_uk, wa_candidate, wa_candidate] (None, - 1)
           = (Some ([perth_uk, wa_candidate, wa_candidate] ! i),
              candidate_score ''Mine in Western Australia'' ([perth_uk, wa_candidate, wa_candidate] ! i))
         \<and> list_all (\<lambda>j. candidate_score ''Mine in Western Australia'' ([perth_uk, wa_candidate, wa_candidate] ! j)
                           < candidate_score ''Mine in Western Australia'' ([perth_uk, wa_candidate, wa_candidate] ! i))
               [0..<i])"
proof -
  let ?cs = "[perth_uk, wa_candidate, wa_candidate]"
  let ?ctx = "''Mine in Western Australia''"
  have ne: "?cs \<noteq> []" by simp
  have s: "candidate_score ?ctx perth_uk = 0" "candidate_score ?ctx wa_candidate = 13/10"
    by code_simp+
  have r: "py_round4 (13/10) = 13/10" by (simp add: py_round4_def Let_def)
  have f: "str_float 1 = ''1.0''" by (simp add: str_float_def Let_def str_nat.simps)
  have w: "cand_name wa_candidate = ''Western Australia, Australia''"
    "cand_latitude wa_candidate = - 25" "cand_longitude wa_candidate = 122"
    by (simp_all add: wa_candidate_def)
  have v: "simulate_llm_disambiguation ?ctx ?cs =
       \<lparr>chosen_location = Some ''Western Australia, Australia'', coordinates = Some (- 25, 122),
        geolocation_confidence = 1,
        justification =
          ''Simulation selected candidate based on high contextual match (score: 1.0).''\<rparr>"
    by (simp add: simulate_llm_disambiguation_def s r f w)
  from disambiguation_postcondition[of ?ctx ?cs] ne
  obtain i where "i < length ?cs"
    and "\<forall>j < i. candidate_score ?ctx (?cs ! j) < candidate_score ?ctx (?cs ! i)"
    and "best_candidate_loop ?ctx ?cs (None, - 1) = (Some (?cs ! i), candidate_score ?ctx (?cs ! i))"
    by blast
  then have "\<exists>i < length ?cs.
         best_candidate_loop ?ctx ?cs (None, - 1) = (Some (?cs ! i), candidate_score ?ctx (?cs ! i))
         \<and> list_all (\<lambda>j. candidate_score ?ctx (?cs ! j) < candidate_score ?ctx (?cs ! i)) [0..<i]"
    by (auto simp: list_all_iff)
  then show ?thesis using ne v by blast
qed

text \<open>
  C3, as the specification states it: for the context "The project lies in WA near Perth"
  and the candidates "Perth, Australia" and "Perth, UK", the first candidate would win with
  a score of at least 0.5 and a confidence above 0.5. The code gives the first candidate
  the score 0 and the confidence 0.25: the 0.5 needs "australia" in the context, which has
  none, and the 0.8 needs "western australia" in the candidate's name, which has none.
\<close>

theorem perth_not_confident:
  "str_contains ''australia'' (str_lower (cand_name perth_australia))
   \<and> \<not> str_contains ''australia'' (str_lower (cand_name perth_uk))
   \<and> \<not> 5/10 \<le> candidate_score perth_context perth_australia
   \<and> \<not> 5/10 < geolocation_confidence
                    (simulate_llm_disambiguation perth_context [perth_australia, perth_uk])"
  by code_simp

text \<open>
  C3, amended: for the context "The project lies in WA near Perth" and a list of two
  candidates of which neither has "western australia" in its lowercased name (as "Perth,
  Australia" and "Perth, UK"), both candidates have the score 0 and the scorer returns the
  first of them, by its fallback, with the confidence 0.25. Nothing is said of a candidate
  whose name has "western australia".
\<close>

theorem perth_fallback:
  assumes "\<not> str_contains ''western australia'' (str_lower (cand_name c1))"
    and "\<not> str_contains ''western australia'' (str_lower (cand_name c2))"
  shows "candidate_score perth_context c1 = 0 \<and> candidate_score perth_context c2 = 0
   \<and> simulate_llm_disambiguation perth_context [c1, c2] =
      \<lparr>chosen_location = Some (cand_name c1),
       coordinates = Some (cand_latitude c1, cand_longitude c1),
       geolocation_confidence = 25/100,
       justification = ''Context was ambiguous. Simulation defaulted to the first available result.''\<rparr>"
  using assms by (simp add: perth_score simulate_llm_disambiguation_def first_result_def)

theorem perth_fallback_witness:
  "\<not> str_contains ''western australia'' (str_lower (cand_name perth_australia))
   \<and> \<not> str_contains ''western australia'' (str_lower (cand_name perth_uk))
   \<and> candidate_score perth_context perth_australia = 0
   \<and> candidate_score perth_context perth_uk = 0
   \<and> simulate_llm_disambiguation perth_context [perth_australia, perth_uk] =
      \<lparr>chosen_location = Some ''Perth, Australia'',
       coordinates = Some (- 3195/100, 11586/100),
       geolocation_confidence = 25/100,
       justification = ''Context was ambiguous. Simulation defaulted to the first available result.''\<rparr>"
proof -
  have a: "\<not> str_contains ''western australia'' (str_lower (cand_name perth_australia))"
    and b: "\<not> str_contains ''western australia'' (str_lower (cand_name perth_uk))"
    by code_simp+
  from perth_fallback[OF a b] show ?thesis using a b by (simp add: perth_australia_def)
qed

text \<open>
  C4: the context "Mine in WA" contains "WA", and the lowercased name of the candidate
  "Western Australia, Australia" contains "western australia", but the candidate's score
  is 0 and the scorer falls back to the confidence 0.25: line 47 looks for the lowercase
  "wa" in the context as it is written, which "WA" does not contain. The context
  "Mine near Ottawa" has that lowercase "wa", and there the candidate gets the 0.8.
\<close>

theorem wa_cue_missed:
  "str_contains ''WA'' ''Mine in WA''
   \<and> str_contains ''western australia'' (str_lower (cand_name wa_candidate))
   \<and> candidate_score ''Mine in WA'' wa_candidate = 0
   \<and> geolocation_confidence (simulate_llm_disambiguation ''Mine in WA'' [wa_candidate]) = 25/100
   \<and> candidate_score ''Mine near Ottawa'' wa_candidate = 8/10"
  by code_simp

section \<open>Theorems: the pipeline\<close>

text \<open>
  C2: a run on two mentions with the context "in WA", for which the backend has a
  candidate. The first mention gets all its fields, and its record is written to the
  output file with no newline behind it; then the run ends with NameError, and the second
  mention is never processed.
\<close>

theorem first_record_written_without_newline:
  "run_geolocation_pipeline dumps wa_geolocator (Some [wa_mention, wa_mention]) None =
     (Some (dumps \<lparr>fr_mention = wa_mention\<lparr>ner_coordinates := Some (- 25, 122)\<rparr>,
                   fr_choice = \<lparr>chosen_location = Some ''Western Australia, Australia'',
                     coordinates = Some (- 25, 122), geolocation_confidence = 25/100,
                     justification =
                       ''Context was ambiguous. Simulation defaulted to the first available result.''\<rparr>\<rparr>),
      Some NameError)"
  by code_simp

end
